theory Spec2Isabelle
  imports Main "HOL-Library.Sublist" "HOL-Library.Multiset"
begin

section \<open>Data model\<close>

text \<open>
  The program is a pipeline over a list of events: parse, filter, sort, group, render.
  This theory embeds the stages after parsing (\<open>makeMatcher\<close>, \<open>applyFilter\<close>,
  \<open>sortEvents\<close>, \<open>groupByMonth\<close>, \<open>formatTime\<close>, \<open>renderHTML\<close>, \<open>escapeHtml\<close> and the part
  of the command's action that chains them).

  A \<open>Date\<close> is its time value, the milliseconds since the epoch, as an integer; only valid
  dates are modelled (an invalid date has the time value NaN). A date that is \<open>null\<close> is
  \<open>None\<close>. Strings are byte strings in UTF-8, the encoding the document is written in:
  the five characters that \<open>escapeHtml\<close> replaces are ASCII, so each is one byte and no
  byte of a longer sequence equals one of them.
\<close>

type_synonym Date = int

record EventItem =
  uid :: "string option"
  summary :: string
  description :: string
  location :: string
  start :: "Date option"
  end' :: "Date option"

text \<open>
  The options of the command. A field that can be \<open>undefined\<close> is an option; conditions
  read such a field by its truthiness.
\<close>

record Opts =
  output' :: string
  filter' :: "string option"
  invert :: "bool option"
  caseSensitive :: "bool option"
  title :: "string option"
  includeSummary :: "bool option"
  includeMeta :: "bool option"
  includeDesc :: "bool option"
  debug :: "bool option"

definition truthy_flag :: "bool option \<Rightarrow> bool" where
  "truthy_flag b = (b = Some True)"

definition truthy_str :: "string option \<Rightarrow> bool" where
  "truthy_str s = (case s of None \<Rightarrow> False | Some v \<Rightarrow> v \<noteq> [])"

text \<open>
  What the program takes from the language runtime and from its libraries, as a record of
  functions: the regular expression engine (\<open>new RegExp(pattern, flags)\<close>, which throws a
  SyntaxError with a message or returns a regular expression of type \<open>'r\<close>, and
  \<open>RegExp.prototype.test\<close>, which keeps no state for an expression without the flags g and
  y), \<open>String.prototype.localeCompare\<close>, \<open>formatInTimeZone\<close> of date-fns-tz (date, time
  zone, format), \<open>Date.prototype.toLocaleTimeString\<close> with the options of \<open>formatTime\<close>,
  and the constant \<open>currentTimeZone\<close>.
\<close>

record 'r Runtime =
  RegExp_new :: "string \<Rightarrow> string option \<Rightarrow> string + 'r"
  RegExp_test :: "'r \<Rightarrow> string \<Rightarrow> bool"
  localeCompare :: "string \<Rightarrow> string \<Rightarrow> int"
  formatInTimeZone :: "Date \<Rightarrow> string \<Rightarrow> string \<Rightarrow> string"
  toLocaleTimeString :: "Date \<Rightarrow> string"
  currentTimeZone :: string

datatype error = SyntaxError string

section \<open>Matcher and filter\<close>

text \<open>
  \<open>makeMatcher\<close>: a pattern that is undefined or empty gives \<open>null\<close>; otherwise the
  pattern is compiled, with the flag i unless \<open>caseSensitive\<close> is truthy. Nothing catches
  what the constructor throws.
\<close>

definition makeMatcher :: "'r Runtime \<Rightarrow> string option \<Rightarrow> bool option \<Rightarrow> error + 'r option" where
  "makeMatcher rt pattern cs =
     (case pattern of
        None \<Rightarrow> Inr None
      | Some p \<Rightarrow>
          if p = [] then Inr None
          else
            let flags = (if truthy_flag cs then None else Some ''i'')
            in (case RegExp_new rt p flags of
                  Inl msg \<Rightarrow> Inl (SyntaxError msg)
                | Inr r \<Rightarrow> Inr (Some r)))"

definition hay :: "EventItem \<Rightarrow> string" where
  "hay e = summary e @ ''\<newline>'' @ description e @ ''\<newline>'' @ location e"

definition applyFilter :: "'r Runtime \<Rightarrow> EventItem list \<Rightarrow> 'r option \<Rightarrow> bool option \<Rightarrow> EventItem list" where
  "applyFilter rt evs matcher inverted =
     (case matcher of
        None \<Rightarrow> evs
      | Some m \<Rightarrow>
          filter (\<lambda>e. let matched = RegExp_test rt m (hay e)
                      in if truthy_flag inverted then \<not> matched else matched) evs)"

section \<open>Sorting\<close>

text \<open>
  \<open>Array.prototype.sort\<close> with a comparator. The language requires the sort to be stable,
  and for a consistent comparator the result is the one stable ordering of the array
  (\<open>array_sort_unique\<close> below); it is computed here by insertion. An element goes before the first element that it does not
  compare greater than, so elements that compare equal keep their order. A comparator's
  result is read only through its sign.
\<close>

fun insert_cmp :: "('a \<Rightarrow> 'a \<Rightarrow> int) \<Rightarrow> 'a \<Rightarrow> 'a list \<Rightarrow> 'a list" where
  "insert_cmp cmp x [] = [x]"
| "insert_cmp cmp x (y # ys) = (if cmp x y \<le> 0 then x # y # ys else y # insert_cmp cmp x ys)"

definition array_sort :: "('a \<Rightarrow> 'a \<Rightarrow> int) \<Rightarrow> 'a list \<Rightarrow> 'a list" where
  "array_sort cmp xs = foldr (insert_cmp cmp) xs []"

text \<open>
  What the language asks of a comparator for the result of a sort to be defined: the two
  orders of a pair have opposite signs, and not being greater is transitive.
\<close>

definition consistent_comparator :: "('a \<Rightarrow> 'a \<Rightarrow> int) \<Rightarrow> bool" where
  "consistent_comparator cmp =
     ((\<forall>a b. (cmp a b < 0) = (0 < cmp b a)) \<and>
      (\<forall>a b c. cmp a b \<le> 0 \<and> cmp b c \<le> 0 \<longrightarrow> cmp a c \<le> 0))"

text \<open>
  The comparator of \<open>sortEvents\<close>, its four cases in the order of the source. The summary
  of an event is a string, so \<open>a.summary || ""\<close> is the summary.
\<close>

definition sortEvents_cmp :: "'r Runtime \<Rightarrow> EventItem \<Rightarrow> EventItem \<Rightarrow> int" where
  "sortEvents_cmp rt a b =
     (if start a = None \<and> start b \<noteq> None then 1
      else if start a \<noteq> None \<and> start b = None then - 1
      else if start a \<noteq> None \<and> start b \<noteq> None then the (start a) - the (start b)
      else localeCompare rt (summary a) (summary b))"

definition sortEvents :: "'r Runtime \<Rightarrow> EventItem list \<Rightarrow> EventItem list" where
  "sortEvents rt evs = array_sort (sortEvents_cmp rt) evs"

section \<open>Grouping by month\<close>

record Group =
  groupKey :: string
  events :: "EventItem list"

text \<open>
  The comparator of the sort inside \<open>groupByMonth\<close>. Its numbers \<open>ta\<close> and \<open>tb\<close> are the
  time value of the start, or \<open>+Infinity\<close> when the start is absent, which is \<open>None\<close>
  here: two of them are equal when both are infinite or both are the same time value.
  \<open>time_difference\<close> is \<open>ta - tb\<close>; an infinite difference is written 1 or -1 by its
  sign, and the difference of two infinities does not arise, as the comparator subtracts
  only numbers that differ.
\<close>

definition time_difference :: "Date option \<Rightarrow> Date option \<Rightarrow> int" where
  "time_difference ta tb =
     (case (ta, tb) of
        (Some x, Some y) \<Rightarrow> x - y
      | (None, Some y) \<Rightarrow> 1
      | (Some x, None) \<Rightarrow> - 1
      | (None, None) \<Rightarrow> 0)"

definition groupByMonth_cmp :: "'r Runtime \<Rightarrow> EventItem \<Rightarrow> EventItem \<Rightarrow> int" where
  "groupByMonth_cmp rt a b =
     (let ta = start a; tb = start b
      in if ta \<noteq> tb then time_difference ta tb
         else localeCompare rt (summary a) (summary b))"

definition eventGroupKey :: "'r Runtime \<Rightarrow> EventItem \<Rightarrow> string" where
  "eventGroupKey rt ev =
     (case start ev of
        Some t \<Rightarrow> formatInTimeZone rt t (currentTimeZone rt) ''MMMM yyyy''
      | None \<Rightarrow> ''Unknown'')"

text \<open>
  One round of the \<open>forEach\<close>: the open group is the last one (\<open>groups.at(-1)\<close>); a group
  is pushed when there is none or its key differs, and the event is pushed onto the events
  of the open group.
\<close>

definition groupByMonth_step :: "'r Runtime \<Rightarrow> Group list \<Rightarrow> EventItem \<Rightarrow> Group list" where
  "groupByMonth_step rt groups ev =
     (let k = eventGroupKey rt ev
      in if groups = [] \<or> groupKey (last groups) \<noteq> k
         then groups @ [\<lparr>groupKey = k, events = [ev]\<rparr>]
         else butlast groups @ [(last groups)\<lparr>events := events (last groups) @ [ev]\<rparr>])"

definition groupByMonth_pass :: "'r Runtime \<Rightarrow> EventItem list \<Rightarrow> Group list" where
  "groupByMonth_pass rt evs = foldl (groupByMonth_step rt) [] evs"

text \<open>
  \<open>groupByMonth\<close> sorts the array it is given, in place, and then makes the pass.
  \<open>groupByMonth_sorted\<close> is the array after that sort.
\<close>

definition groupByMonth_sorted :: "'r Runtime \<Rightarrow> EventItem list \<Rightarrow> EventItem list" where
  "groupByMonth_sorted rt evs = array_sort (groupByMonth_cmp rt) evs"

definition groupByMonth :: "'r Runtime \<Rightarrow> EventItem list \<Rightarrow> Group list" where
  "groupByMonth rt evs = groupByMonth_pass rt (groupByMonth_sorted rt evs)"

section \<open>Rendering\<close>

definition replaceAll :: "char \<Rightarrow> string \<Rightarrow> string \<Rightarrow> string" where
  "replaceAll c r s = concat (map (\<lambda>x. if x = c then r else [x]) s)"

definition escapeHtml :: "string \<Rightarrow> string" where
  \<open>escapeHtml s =
     (if s = [] then []
      else replaceAll (CHR 0x27) ''&#39;''
             (replaceAll (CHR 0x22) ''&quot;''
               (replaceAll CHR ''>'' ''&gt;''
                 (replaceAll CHR ''<'' ''&lt;''
                   (replaceAll CHR ''&'' ''&amp;'' s)))))\<close>

definition formatTime :: "'r Runtime \<Rightarrow> Date option \<Rightarrow> string" where
  "formatTime rt date = (case date of None \<Rightarrow> [] | Some d \<Rightarrow> toLocaleTimeString rt d)"

definition en_dash :: string where
  "en_dash = [CHR 0xE2, CHR 0x80, CHR 0x93]"

definition bullet :: string where
  "bullet = [CHR 0xE2, CHR 0x80, CHR 0xA2]"

definition timeRange :: "'r Runtime \<Rightarrow> EventItem \<Rightarrow> string" where
  "timeRange rt ev =
     (let s = (if start ev \<noteq> None then formatTime rt (start ev) else []);
          e = (if end' ev \<noteq> None then formatTime rt (end' ev) else [])
      in if s \<noteq> [] \<or> e \<noteq> []
         then s @ (if e \<noteq> [] then '' '' @ en_dash @ '' '' @ e else [])
         else [])"

text \<open>
  A template literal is a list of pieces: \<open>Lit\<close> is text of the template itself (a class
  name that the template chooses is such text), \<open>Text\<close> a substitution that comes from the
  title, from a field of an event or from a group key, \<open>Time\<close> a substitution for a date
  (what a formatter made of it, or the placeholder for an absent one). The string is the
  pieces in sequence.
\<close>

datatype piece = Lit string | Text string | Time string

fun piece_text :: "piece \<Rightarrow> string" where
  "piece_text (Lit s) = s"
| "piece_text (Text s) = s"
| "piece_text (Time s) = s"

definition flatten :: "piece list \<Rightarrow> string" where
  "flatten ps = concat (map piece_text ps)"

fun join_pieces :: "string \<Rightarrow> piece list list \<Rightarrow> piece list" where
  "join_pieces sep [] = []"
| "join_pieces sep [p] = p"
| "join_pieces sep (p # q # ps) = p @ Lit sep # join_pieces sep (q # ps)"

definition dateHeading :: "'r Runtime \<Rightarrow> EventItem \<Rightarrow> string" where
  "dateHeading rt ev =
     (case start ev of
        Some t \<Rightarrow> formatInTimeZone rt t (currentTimeZone rt) ''EEEE, MMMM d, yyyy hh:mm a''
      | None \<Rightarrow> ''?'')"

definition hiddenUnless :: "bool option \<Rightarrow> string" where
  "hiddenUnless b = (if truthy_flag b then [] else ''hidden'')"

definition metaTime_pieces :: "'r Runtime \<Rightarrow> EventItem \<Rightarrow> piece list" where
  "metaTime_pieces rt ev =
     (if timeRange rt ev \<noteq> [] then [Lit ('' '' @ bullet @ '' ''), Time (timeRange rt ev)] else [])"

definition descHtml_pieces :: "Opts \<Rightarrow> EventItem \<Rightarrow> piece list" where
  \<open>descHtml_pieces opts ev =
     (if description ev \<noteq> []
      then [Lit ''<div class="desc '', Lit (hiddenUnless (includeDesc opts)), Lit ''">'',
            Text (escapeHtml (description ev)), Lit ''</div>'']
      else [])\<close>

definition eventHtml_pieces :: "'r Runtime \<Rightarrow> Opts \<Rightarrow> EventItem \<Rightarrow> piece list" where
  \<open>eventHtml_pieces rt opts ev =
     [Lit ''\<newline>\<newline>        <div class="event">\<newline>           <h3 class="date">'',
      Time (dateHeading rt ev),
      Lit ''</h3>\<newline>          <div class="summary '',
      Lit (hiddenUnless (includeSummary opts)),
      Lit ''">'',
      Text (escapeHtml (summary ev)),
      Lit ''</div>\<newline>          <div class="meta '',
      Lit (hiddenUnless (includeMeta opts)),
      Lit ''">'',
      Text (escapeHtml (location ev)),
      Lit '' '']
     @ metaTime_pieces rt ev
     @ [Lit ''</div>\<newline>          '']
     @ descHtml_pieces opts ev
     @ [Lit ''\<newline>        </div>\<newline>      '']\<close>

definition eventHtml :: "'r Runtime \<Rightarrow> Opts \<Rightarrow> EventItem \<Rightarrow> string" where
  "eventHtml rt opts ev = flatten (eventHtml_pieces rt opts ev)"

definition groupHtml_pieces :: "'r Runtime \<Rightarrow> Opts \<Rightarrow> Group \<Rightarrow> piece list" where
  \<open>groupHtml_pieces rt opts g =
     [Lit ''<section class="group"><h2>'', Text (escapeHtml (groupKey g)), Lit ''</h2>'']
     @ join_pieces ''\<newline>'' (map (eventHtml_pieces rt opts) (events g))
     @ [Lit ''</section>'']\<close>

definition css :: string where
  \<open>css = ''\<newline>    body { font-family: -apple-system, system-ui, "Segoe UI", Roboto, "Helvetica Neue", Arial; margin: 1rem; color: #111; }\<newline>    h1 { text-align: center; margin-bottom: 0.5rem; }\<newline>    .group { margin-top: 1rem; page-break-inside: avoid; }\<newline>    .group > h2 { margin-block-start: 1.2rem; margin-block-end: 0.4rem; }\<newline>    .date { page-break-inside: avoid; margin-block-start: 0.4rem; margin-block-end: 0.2rem; }\<newline>    .event { border-bottom: 1px solid #ddd; padding: 0.3rem 0; page-break-inside: avoid; }\<newline>    .summary { font-weight: 600; }\<newline>    .meta { color: #555; font-size: 0.95rem; }\<newline>    .hidden { display: none; }\<newline>    @media print {\<newline>      body { margin: 0.4in; }\<newline>      .event { page-break-inside: avoid; }\<newline>    }\<newline>  ''\<close>

definition renderHTML_pieces :: "'r Runtime \<Rightarrow> string \<Rightarrow> EventItem list \<Rightarrow> Opts \<Rightarrow> piece list" where
  \<open>renderHTML_pieces rt ttl evs opts =
     [Lit ''<!doctype html>\<newline><html lang="en">\<newline><head>\<newline>  <meta charset="utf-8">\<newline>  <title>'',
      Text (escapeHtml ttl),
      Lit ''</title>\<newline>  <meta name="viewport" content="width=device-width,initial-scale=1">\<newline>  <style>'',
      Lit css,
      Lit ''</style>\<newline></head>\<newline><body>\<newline>  <h1>'',
      Text (escapeHtml ttl),
      Lit ''</h1>\<newline>  '']
     @ join_pieces ''\<newline>'' (map (groupHtml_pieces rt opts) (groupByMonth rt evs))
     @ [Lit ''\<newline></body>\<newline></html>'']\<close>

definition renderHTML :: "'r Runtime \<Rightarrow> string \<Rightarrow> EventItem list \<Rightarrow> Opts \<Rightarrow> string" where
  "renderHTML rt ttl evs opts = flatten (renderHTML_pieces rt ttl evs opts)"

section \<open>The action of the command\<close>

text \<open>
  The action from the parsed events on: the matcher is made when a filter is given (an
  empty string is none), then the events are filtered, sorted and rendered. An error of
  \<open>makeMatcher\<close> ends the action there.
\<close>

definition action_matcher :: "'r Runtime \<Rightarrow> Opts \<Rightarrow> error + 'r option" where
  "action_matcher rt opts =
     (if truthy_str (filter' opts) then makeMatcher rt (filter' opts) (caseSensitive opts)
      else Inr None)"

definition action_filtered :: "'r Runtime \<Rightarrow> Opts \<Rightarrow> EventItem list \<Rightarrow> error + EventItem list" where
  "action_filtered rt opts evs =
     (case action_matcher rt opts of
        Inl err \<Rightarrow> Inl err
      | Inr matcher \<Rightarrow> Inr (applyFilter rt evs matcher (invert opts)))"


section \<open>Notions used to state the properties\<close>

text \<open>
  The replacement of one character by \<open>escapeHtml\<close>, and what it is for a string to hold
  none of the five characters raw: no \<open><\<close>, \<open>>\<close>, double or single quote at all, and
  every \<open>&\<close> the start of one of the five entities.
\<close>

definition entity :: "char \<Rightarrow> string" where
  \<open>entity c =
     (if c = CHR ''&'' then ''&amp;''
      else if c = CHR ''<'' then ''&lt;''
      else if c = CHR ''>'' then ''&gt;''
      else if c = CHR 0x22 then ''&quot;''
      else if c = CHR 0x27 then ''&#39;''
      else [c])\<close>

fun amp_entities_only :: "string \<Rightarrow> bool" where
  "amp_entities_only [] = True"
| "amp_entities_only (c # cs) =
     ((if c = CHR ''&''
       then list_ex (\<lambda>e. prefix e cs) [''amp;'', ''lt;'', ''gt;'', ''quot;'', ''#39;'']
       else True) \<and> amp_entities_only cs)"

definition no_raw_special :: "string \<Rightarrow> bool" where
  "no_raw_special s =
     (CHR ''<'' \<notin> set s \<and> CHR ''>'' \<notin> set s \<and> CHR 0x22 \<notin> set s \<and> CHR 0x27 \<notin> set s \<and>
      amp_entities_only s)"

fun inserted_texts :: "piece list \<Rightarrow> string list" where
  "inserted_texts [] = []"
| "inserted_texts (Text s # ps) = s # inserted_texts ps"
| "inserted_texts (p # ps) = inserted_texts ps"

text \<open>
  The texts that a document takes from the title, the group keys and the events, in the
  order of the document.
\<close>

definition event_texts :: "EventItem \<Rightarrow> string list" where
  "event_texts ev =
     [summary ev, location ev] @ (if description ev = [] then [] else [description ev])"

definition group_texts :: "Group \<Rightarrow> string list" where
  "group_texts g = groupKey g # concat (map event_texts (events g))"

definition document_texts :: "string \<Rightarrow> Group list \<Rightarrow> string list" where
  "document_texts ttl gs = ttl # ttl # concat (map group_texts gs)"

text \<open>
  The filter as the specification words it: no pattern keeps every event; a pattern keeps
  the events that its regular expression matches, or with \<open>invert\<close> those that it does not
  match. It has no result when the pattern does not compile.
\<close>

definition spec_filter ::
  "'r Runtime \<Rightarrow> string option \<Rightarrow> bool \<Rightarrow> bool \<Rightarrow> EventItem list \<Rightarrow> EventItem list option" where
  "spec_filter rt pattern cs inverted evs =
     (case pattern of
        None \<Rightarrow> Some evs
      | Some p \<Rightarrow>
          (case RegExp_new rt p (if cs then None else Some ''i'') of
             Inl msg \<Rightarrow> None
           | Inr r \<Rightarrow> Some (filter (\<lambda>e. RegExp_test rt r (hay e) \<noteq> inverted) evs)))"

text \<open>
  The three rules of the sorter as the specification words them: \<open>three_rules rt a b\<close>
  holds when \<open>a\<close> may stand before \<open>b\<close>. \<open>start_le\<close> is their part on the starts alone.
\<close>

definition three_rules :: "'r Runtime \<Rightarrow> EventItem \<Rightarrow> EventItem \<Rightarrow> bool" where
  "three_rules rt a b =
     (case (start a, start b) of
        (None, Some tb) \<Rightarrow> False
      | (Some ta, None) \<Rightarrow> True
      | (None, None) \<Rightarrow> localeCompare rt (summary a) (summary b) \<le> 0
      | (Some ta, Some tb) \<Rightarrow> ta \<le> tb)"

definition start_le :: "EventItem \<Rightarrow> EventItem \<Rightarrow> bool" where
  "start_le a b =
     (case (start a, start b) of
        (None, Some tb) \<Rightarrow> False
      | (Some ta, None) \<Rightarrow> True
      | (None, None) \<Rightarrow> True
      | (Some ta, Some tb) \<Rightarrow> ta \<le> tb)"


text \<open>
  An element of the document with a class attribute, and the classes that an attribute
  value carries: its words between spaces.
\<close>

definition element :: "string \<Rightarrow> string \<Rightarrow> string \<Rightarrow> string" where
  \<open>element tag cls body = ''<'' @ tag @ '' class="'' @ cls @ ''">'' @ body @ ''</'' @ tag @ ''>''\<close>

fun split_on :: "char \<Rightarrow> string \<Rightarrow> string list" where
  "split_on c [] = [[]]"
| "split_on c (x # xs) =
     (if x = c then [] # split_on c xs
      else (case split_on c xs of [] \<Rightarrow> [[x]] | w # ws \<Rightarrow> (x # w) # ws))"

definition class_tokens :: "string \<Rightarrow> string list" where
  "class_tokens v = filter (\<lambda>w. w \<noteq> []) (split_on CHR '' '' v)"

section \<open>A sample runtime\<close>

text \<open>
  An instance of the runtime, to run the program on concrete inputs. Its regular
  expressions are the patterns of letters, digits and spaces, which match as substrings (as
  they do in the language, the empty pattern included); it rejects every other pattern,
  with the message that the V8 engine gives for the pattern of one open parenthesis. Its \<open>localeCompare\<close> compares byte by
  byte, and its formatters print in UTC the two formats that the program asks for and a
  12-hour clock. It is an instance, not a model of the engines.
\<close>

datatype sample_regexp = Literal string bool

definition literal_char :: "char \<Rightarrow> bool" where
  "literal_char c =
     (let n = (of_char c :: nat)
      in (48 \<le> n \<and> n \<le> 57) \<or> (65 \<le> n \<and> n \<le> 90) \<or> (97 \<le> n \<and> n \<le> 122) \<or> n = 32)"

definition lower :: "char \<Rightarrow> char" where
  "lower c = (let n = (of_char c :: nat) in if 65 \<le> n \<and> n \<le> 90 then char_of (n + 32) else c)"

definition sample_RegExp_new :: "string \<Rightarrow> string option \<Rightarrow> string + sample_regexp" where
  "sample_RegExp_new p flags =
     (if list_all literal_char p then Inr (Literal p (flags = Some ''i''))
      else Inl (''Invalid regular expression: /'' @ p @ ''/''
                @ (case flags of None \<Rightarrow> [] | Some f \<Rightarrow> f) @ '': Unterminated group''))"

fun sample_RegExp_test :: "sample_regexp \<Rightarrow> string \<Rightarrow> bool" where
  "sample_RegExp_test (Literal p ignoreCase) s =
     (if ignoreCase then sublist (map lower p) (map lower s) else sublist p s)"

fun sample_localeCompare :: "string \<Rightarrow> string \<Rightarrow> int" where
  "sample_localeCompare [] [] = 0"
| "sample_localeCompare [] (y # ys) = - 1"
| "sample_localeCompare (x # xs) [] = 1"
| "sample_localeCompare (x # xs) (y # ys) =
     (if (of_char x :: nat) < of_char y then - 1
      else if (of_char y :: nat) < of_char x then 1
      else sample_localeCompare xs ys)"

definition digit :: "int \<Rightarrow> char" where
  "digit n = char_of (48 + n)"

definition pad2 :: "int \<Rightarrow> string" where
  "pad2 n = [digit (n div 10 mod 10), digit (n mod 10)]"

definition pad4 :: "int \<Rightarrow> string" where
  "pad4 n = pad2 (n div 100) @ pad2 n"

text \<open>The civil date (year, month, day) of a day number counted from 1970-01-01.\<close>

definition civil_from_days :: "int \<Rightarrow> int \<times> int \<times> int" where
  "civil_from_days z =
     (let z' = z + 719468;
          era = z' div 146097;
          doe = z' - era * 146097;
          yoe = (doe - doe div 1460 + doe div 36524 - doe div 146096) div 365;
          doy = doe - (365 * yoe + yoe div 4 - yoe div 100);
          mp = (5 * doy + 2) div 153;
          d = doy - (153 * mp + 2) div 5 + 1;
          m = (if mp < 10 then mp + 3 else mp - 9);
          y = yoe + era * 400 + (if m \<le> 2 then 1 else 0)
      in (y, m, d))"

definition month_names :: "string list" where
  "month_names = [''January'', ''February'', ''March'', ''April'', ''May'', ''June'', ''July'',
     ''August'', ''September'', ''October'', ''November'', ''December'']"

definition day_names :: "string list" where
  "day_names = [''Sunday'', ''Monday'', ''Tuesday'', ''Wednesday'', ''Thursday'', ''Friday'',
     ''Saturday'']"

definition hour12 :: "int \<Rightarrow> int" where
  "hour12 h = (if h mod 12 = 0 then 12 else h mod 12)"

definition clock12 :: "Date \<Rightarrow> string" where
  "clock12 t =
     (let ms = t mod 86400000; h = ms div 3600000; mi = ms div 60000 mod 60
      in pad2 (hour12 h) @ '':'' @ pad2 mi @ (if h < 12 then '' AM'' else '' PM''))"

definition sample_formatInTimeZone :: "Date \<Rightarrow> string \<Rightarrow> string \<Rightarrow> string" where
  "sample_formatInTimeZone t tz fmt =
     (let days = t div 86400000;
          (y, m, d) = civil_from_days days;
          month_year = month_names ! nat (m - 1) @ '' '' @ pad4 y
      in if fmt = ''MMMM yyyy'' then month_year
         else day_names ! nat ((days + 4) mod 7) @ '', '' @ month_names ! nat (m - 1) @ '' ''
              @ (if d < 10 then [digit d] else pad2 d) @ '', '' @ pad4 y @ '' '' @ clock12 t)"

definition sample_rt :: "sample_regexp Runtime" where
  "sample_rt = \<lparr>RegExp_new = sample_RegExp_new, RegExp_test = sample_RegExp_test,
     localeCompare = sample_localeCompare, formatInTimeZone = sample_formatInTimeZone,
     toLocaleTimeString = clock12, currentTimeZone = ''UTC''\<rparr>"



text \<open>
  Sample events and options: a game on Monday 10 March 2025 from 10:00 to 11:30, a practice
  a week later with a description and no end, a picnic with no dates, an event with an end
  and no start, and two events, Beta before Alpha, with the same start.
\<close>

definition ev_game :: EventItem where
  "ev_game = \<lparr>uid = Some ''g1'', summary = ''Big Game'', description = [],
     location = ''Field 2'', start = Some 1741600800000, end' = Some 1741606200000\<rparr>"

definition ev_practice :: EventItem where
  \<open>ev_practice = \<lparr>uid = Some ''p1'', summary = ''Practice'',
     description = ''Bring <water> & "snacks"'', location = ''Gym'',
     start = Some 1742205600000, end' = None\<rparr>\<close>

definition ev_picnic :: EventItem where
  "ev_picnic = \<lparr>uid = None, summary = ''Picnic'', description = [], location = [],
     start = None, end' = None\<rparr>"

definition ev_until :: EventItem where
  "ev_until = \<lparr>uid = None, summary = ''Cleanup'', description = [], location = ''Hall'',
     start = None, end' = Some 1741604400000\<rparr>"

definition ev_beta :: EventItem where
  "ev_beta = \<lparr>uid = None, summary = ''Beta'', description = [], location = [],
     start = Some 1741600800000, end' = None\<rparr>"

definition ev_alpha :: EventItem where
  "ev_alpha = \<lparr>uid = None, summary = ''Alpha'', description = [], location = [],
     start = Some 1741600800000, end' = None\<rparr>"

definition script_text :: string where
  \<open>script_text = ''<script>&"'' @ [CHR 0x27]\<close>

definition sample_opts :: Opts where
  "sample_opts = \<lparr>output' = ''calendar.html'', filter' = Some ''game'', invert = Some False,
     caseSensitive = Some False, title = Some ''Calendar'', includeSummary = Some False,
     includeMeta = Some True, includeDesc = Some False, debug = Some False\<rparr>"

section \<open>The sort\<close>

lemma mset_insert_cmp: "mset (insert_cmp cmp x ys) = add_mset x (mset ys)"
  by (induction ys) simp_all

lemma mset_array_sort: "mset (array_sort cmp xs) = mset xs"
  by (induction xs) (simp_all add: array_sort_def mset_insert_cmp)

lemma set_insert_cmp: "set (insert_cmp cmp x ys) = insert x (set ys)"
  by (induction ys) auto

lemma array_sort_Cons: "array_sort cmp (x # xs) = insert_cmp cmp x (array_sort cmp xs)"
  by (simp add: array_sort_def)

lemma array_sort_Nil: "array_sort cmp [] = []"
  by (simp add: array_sort_def)

lemma insert_cmp_sorted_wrt:
  assumes tr: "\<And>a b c. R a b \<Longrightarrow> R b c \<Longrightarrow> R a c"
    and le: "\<And>a b. cmp a b \<le> 0 \<Longrightarrow> R a b"
    and gt: "\<And>a b. 0 < cmp a b \<Longrightarrow> R b a"
    and srt: "sorted_wrt R ys"
  shows "sorted_wrt R (insert_cmp cmp x ys)"
  using srt
proof (induction ys)
  case Nil
  then show ?case by simp
next
  case (Cons y ys)
  show ?case
  proof (cases "cmp x y \<le> 0")
    case True
    then have "R x y" by (rule le)
    moreover have "\<forall>z\<in>set ys. R x z"
      using Cons.prems \<open>R x y\<close> tr by auto
    ultimately show ?thesis using True Cons.prems by simp
  next
    case False
    then have "R y x" using gt [of x y] by simp
    then show ?thesis
      using False Cons by (auto simp: set_insert_cmp)
  qed
qed

lemma array_sort_sorted_wrt:
  assumes tr: "\<And>a b c. R a b \<Longrightarrow> R b c \<Longrightarrow> R a c"
    and le: "\<And>a b. cmp a b \<le> 0 \<Longrightarrow> R a b"
    and gt: "\<And>a b. 0 < cmp a b \<Longrightarrow> R b a"
  shows "sorted_wrt R (array_sort cmp xs)"
proof (induction xs)
  case Nil
  show ?case by (simp add: array_sort_Nil)
next
  case (Cons x xs)
  show ?case
    unfolding array_sort_Cons
    by (rule insert_cmp_sorted_wrt [OF tr le gt Cons.IH])
qed

lemma consistent_gt: "consistent_comparator cmp \<Longrightarrow> 0 < cmp a b \<Longrightarrow> cmp b a \<le> 0"
proof -
  assume "consistent_comparator cmp" and p: "0 < cmp a b"
  then have "(cmp b a < 0) = (0 < cmp a b)" unfolding consistent_comparator_def by blast
  with p show ?thesis by linarith
qed

lemma consistent_trans:
  "consistent_comparator cmp \<Longrightarrow> cmp a b \<le> 0 \<Longrightarrow> cmp b c \<le> 0 \<Longrightarrow> cmp a c \<le> 0"
  unfolding consistent_comparator_def by blast

lemma array_sort_sorted:
  assumes "consistent_comparator cmp"
  shows "sorted_wrt (\<lambda>a b. cmp a b \<le> 0) (array_sort cmp xs)"
  by (rule array_sort_sorted_wrt)
     (auto intro: consistent_trans [OF assms] consistent_gt [OF assms])

lemma array_sort_sorted_id:
  "sorted_wrt (\<lambda>a b. cmp a b \<le> 0) xs \<Longrightarrow> array_sort cmp xs = xs"
proof (induction xs)
  case Nil
  show ?case by (simp add: array_sort_Nil)
next
  case (Cons x xs)
  then have "array_sort cmp xs = xs" by simp
  moreover have "insert_cmp cmp x xs = x # xs"
    using Cons.prems by (cases xs) simp_all
  ultimately show ?case by (simp add: array_sort_Cons)
qed

lemma sortEvents_cmp_consistent:
  assumes "consistent_comparator (localeCompare rt)"
  shows "consistent_comparator (sortEvents_cmp rt)"
proof -
  have s: "\<And>a b. (localeCompare rt a b < 0) = (0 < localeCompare rt b a)"
    using assms unfolding consistent_comparator_def by blast
  have t: "\<And>a b c. localeCompare rt a b \<le> 0 \<Longrightarrow> localeCompare rt b c \<le> 0 \<Longrightarrow> localeCompare rt a c \<le> 0"
    using assms unfolding consistent_comparator_def by blast
  have "(sortEvents_cmp rt a b < 0) = (0 < sortEvents_cmp rt b a)" for a b
    using s [of "summary a" "summary b"]
    by (cases "start a"; cases "start b") (simp_all add: sortEvents_cmp_def)
  moreover have "sortEvents_cmp rt a c \<le> 0"
    if "sortEvents_cmp rt a b \<le> 0" "sortEvents_cmp rt b c \<le> 0" for a b c
    using that t [of "summary a" "summary b" "summary c"]
    by (cases "start a"; cases "start b"; cases "start c") (simp_all add: sortEvents_cmp_def)
  ultimately show ?thesis unfolding consistent_comparator_def by blast
qed

lemma groupByMonth_cmp_consistent:
  assumes "consistent_comparator (localeCompare rt)"
  shows "consistent_comparator (groupByMonth_cmp rt)"
proof -
  have s: "\<And>a b. (localeCompare rt a b < 0) = (0 < localeCompare rt b a)"
    using assms unfolding consistent_comparator_def by blast
  have t: "\<And>a b c. localeCompare rt a b \<le> 0 \<Longrightarrow> localeCompare rt b c \<le> 0 \<Longrightarrow> localeCompare rt a c \<le> 0"
    using assms unfolding consistent_comparator_def by blast
  have "(groupByMonth_cmp rt a b < 0) = (0 < groupByMonth_cmp rt b a)" for a b
    using s [of "summary a" "summary b"]
    by (cases "start a"; cases "start b")
       (auto simp: groupByMonth_cmp_def time_difference_def Let_def)
  moreover have "groupByMonth_cmp rt a c \<le> 0"
    if "groupByMonth_cmp rt a b \<le> 0" "groupByMonth_cmp rt b c \<le> 0" for a b c
    using that t [of "summary a" "summary b" "summary c"]
    by (cases "start a"; cases "start b"; cases "start c")
       (auto simp: groupByMonth_cmp_def time_difference_def Let_def split: if_splits)
  ultimately show ?thesis unfolding consistent_comparator_def by blast
qed

section \<open>The pass over the sorted events\<close>

lemma groupByMonth_pass_Nil: "groupByMonth_pass rt [] = []"
  by (simp add: groupByMonth_pass_def)

lemma groupByMonth_pass_snoc:
  "groupByMonth_pass rt (evs @ [ev]) = groupByMonth_step rt (groupByMonth_pass rt evs) ev"
  by (simp add: groupByMonth_pass_def)

lemma remdups_adj_snoc:
  "remdups_adj (ks @ [k]) = (if ks = [] \<or> last ks \<noteq> k then remdups_adj ks @ [k] else remdups_adj ks)"
proof (cases ks rule: rev_cases)
  case Nil
  then show ?thesis by simp
next
  case (snoc ks' k')
  then show ?thesis by (simp add: remdups_adj_append_two)
qed

lemma step_keys:
  "map groupKey (groupByMonth_step rt gs ev) =
     (if gs = [] \<or> last (map groupKey gs) \<noteq> eventGroupKey rt ev
      then map groupKey gs @ [eventGroupKey rt ev] else map groupKey gs)"
proof (cases gs rule: rev_cases)
  case Nil
  then show ?thesis by (simp add: groupByMonth_step_def)
next
  case (snoc gs' g)
  then show ?thesis by (simp add: groupByMonth_step_def Let_def)
qed

lemma pass_keys:
  "map groupKey (groupByMonth_pass rt evs) = remdups_adj (map (eventGroupKey rt) evs)"
proof (induction evs rule: rev_induct)
  case Nil
  show ?case by (simp add: groupByMonth_pass_Nil)
next
  case (snoc ev evs)
  have e: "(groupByMonth_pass rt evs = []) = (evs = [])"
    using snoc.IH by (metis map_is_Nil_conv remdups_adj_Nil_iff)
  show ?case
    unfolding groupByMonth_pass_snoc step_keys
    by (simp add: snoc.IH remdups_adj_snoc e last_map)
qed

lemma step_concat:
  "concat (map events (groupByMonth_step rt gs ev)) = concat (map events gs) @ [ev]"
proof (cases gs rule: rev_cases)
  case Nil
  then show ?thesis by (simp add: groupByMonth_step_def)
next
  case (snoc gs' g)
  then show ?thesis by (simp add: groupByMonth_step_def Let_def)
qed

lemma pass_concat: "concat (map events (groupByMonth_pass rt evs)) = evs"
  by (induction evs rule: rev_induct)
     (simp_all add: groupByMonth_pass_Nil groupByMonth_pass_snoc step_concat)



section \<open>Absent starts and the key of their group\<close>

lemma remdups_adj_all_same: "\<forall>x\<in>set ks. x = u \<Longrightarrow> remdups_adj (u # ks) = [u]"
  by (induction ks) simp_all

lemma trailing_key_count:
  "sorted_wrt (\<lambda>k k'. k = u \<longrightarrow> k' = u) ks \<Longrightarrow> length (filter (\<lambda>k. k = u) (remdups_adj ks)) \<le> 1"
proof (induction ks)
  case Nil
  show ?case by simp
next
  case (Cons k ks)
  show ?case
  proof (cases "k = u")
    case True
    with Cons.prems have "\<forall>x\<in>set ks. x = u" by simp
    then show ?thesis using True by (simp add: remdups_adj_all_same)
  next
    case False
    moreover have "length (filter (\<lambda>k. k = u) (remdups_adj ks)) \<le> 1"
      using Cons by simp
    ultimately show ?thesis by (auto simp: remdups_adj_Cons split: list.splits)
  qed
qed

lemma trailing_key_last:
  "sorted_wrt (\<lambda>k k'. k = u \<longrightarrow> k' = u) ks \<Longrightarrow> i < length (remdups_adj ks) \<Longrightarrow>
   remdups_adj ks ! i = u \<Longrightarrow> Suc i = length (remdups_adj ks)"
proof (induction ks arbitrary: i)
  case Nil
  then show ?case by simp
next
  case (Cons k ks)
  show ?case
  proof (cases "k = u")
    case True
    with Cons.prems have "\<forall>x\<in>set ks. x = u" by simp
    then have "remdups_adj (k # ks) = [u]" using True by (simp add: remdups_adj_all_same)
    then show ?thesis using Cons.prems by simp
  next
    case False
    have srt: "sorted_wrt (\<lambda>k k'. k = u \<longrightarrow> k' = u) ks" using Cons.prems by simp
    show ?thesis
    proof (cases "remdups_adj ks")
      case Nil
      then show ?thesis using Cons.prems False by simp
    next
      case (Cons y ys)
      show ?thesis
      proof (cases "k = y")
        case True
        then have "remdups_adj (k # ks) = remdups_adj ks"
          using Cons by (simp add: remdups_adj_Cons)
        then show ?thesis using Cons.IH [OF srt, of i] \<open>i < length (remdups_adj (k # ks))\<close>
            \<open>remdups_adj (k # ks) ! i = u\<close> by simp
      next
        case ky: False
        then have eq: "remdups_adj (k # ks) = k # remdups_adj ks"
          using Cons by (simp add: remdups_adj_Cons)
        show ?thesis
        proof (cases i)
          case 0
          then show ?thesis using eq \<open>remdups_adj (k # ks) ! i = u\<close> \<open>k \<noteq> u\<close> by simp
        next
          case (Suc j)
          then show ?thesis
            using eq Cons.IH [OF srt, of j] \<open>i < length (remdups_adj (k # ks))\<close>
              \<open>remdups_adj (k # ks) ! i = u\<close> by simp
        qed
      qed
    qed
  qed
qed

lemma sortEvents_absent_last:
  "sorted_wrt (\<lambda>a b. start a = None \<longrightarrow> start b = None) (sortEvents rt evs)"
  unfolding sortEvents_def
  by (rule array_sort_sorted_wrt) (auto simp: sortEvents_cmp_def split: if_splits)

lemma groupByMonth_sorted_absent_last:
  "sorted_wrt (\<lambda>a b. start a = None \<longrightarrow> start b = None) (groupByMonth_sorted rt evs)"
  unfolding groupByMonth_sorted_def
  by (rule array_sort_sorted_wrt)
     (auto simp: groupByMonth_cmp_def time_difference_def Let_def split: if_splits option.splits)

lemma sample_localeCompare_flip:
  "(sample_localeCompare a b < 0) = (0 < sample_localeCompare b a)"
  by (induction a b rule: sample_localeCompare.induct) auto

lemma sample_localeCompare_trans:
  "sample_localeCompare a b \<le> 0 \<Longrightarrow> sample_localeCompare b c \<le> 0 \<Longrightarrow> sample_localeCompare a c \<le> 0"
proof (induction a arbitrary: b c)
  case Nil
  then show ?case by (cases c) simp_all
next
  case (Cons x xs)
  then show ?case
    by (cases b; cases c) (auto split: if_splits)
qed

lemma sample_localeCompare_consistent: "consistent_comparator sample_localeCompare"
  unfolding consistent_comparator_def
  using sample_localeCompare_flip sample_localeCompare_trans by blast

lemma sample_month_year_not_Unknown:
  "sample_formatInTimeZone t tz ''MMMM yyyy'' \<noteq> ''Unknown''"
proof -
  have "CHR '' '' \<in> set (sample_formatInTimeZone t tz ''MMMM yyyy'')"
    by (cases "civil_from_days (t div 86400000)") (simp add: sample_formatInTimeZone_def Let_def)
  moreover have "CHR '' '' \<notin> set ''Unknown''" by simp
  ultimately show ?thesis by metis
qed

section \<open>Escaping and the pieces of the document\<close>

lemma replaceAll_Nil: "replaceAll c r [] = []"
  by (simp add: replaceAll_def)

lemma replaceAll_Cons: "replaceAll c r (x # s) = (if x = c then r else [x]) @ replaceAll c r s"
  by (simp add: replaceAll_def)

lemma replaceAll_append: "replaceAll c r (a @ b) = replaceAll c r a @ replaceAll c r b"
  by (simp add: replaceAll_def)

lemma escapeHtml_Nil: "escapeHtml [] = []"
  by (simp add: escapeHtml_def)

lemma escapeHtml_Cons: "escapeHtml (x # s) = entity x @ escapeHtml s"
  by (simp add: escapeHtml_def entity_def replaceAll_Cons replaceAll_append replaceAll_Nil)

lemma escapeHtml_entities: "escapeHtml s = concat (map entity s)"
  by (induction s) (simp_all add: escapeHtml_Nil escapeHtml_Cons)

lemma entity_chars:
  \<open>CHR ''<'' \<notin> set (entity x) \<and> CHR ''>'' \<notin> set (entity x) \<and> CHR 0x22 \<notin> set (entity x) \<and>
   CHR 0x27 \<notin> set (entity x)\<close>
  by (simp add: entity_def)

lemma amp_entities_only_entity:
  "amp_entities_only r \<Longrightarrow> amp_entities_only (entity x @ r)"
  by (simp add: entity_def)

lemma escapeHtml_no_raw: "no_raw_special (escapeHtml s)"
proof (induction s)
  case Nil
  show ?case by (simp add: escapeHtml_Nil no_raw_special_def)
next
  case (Cons x s)
  then show ?case
    using entity_chars [of x] amp_entities_only_entity [of "escapeHtml s" x]
    by (simp add: escapeHtml_Cons no_raw_special_def)
qed

lemma inserted_texts_append: "inserted_texts (a @ b) = inserted_texts a @ inserted_texts b"
  by (induction a rule: inserted_texts.induct) simp_all

lemma inserted_texts_join:
  "inserted_texts (join_pieces sep pss) = concat (map inserted_texts pss)"
  by (induction sep pss rule: join_pieces.induct) (simp_all add: inserted_texts_append)

lemma inserted_texts_event:
  "inserted_texts (eventHtml_pieces rt opts ev) = map escapeHtml (event_texts ev)"
  by (simp add: eventHtml_pieces_def descHtml_pieces_def metaTime_pieces_def event_texts_def
      inserted_texts_append)

lemma inserted_texts_group:
  "inserted_texts (groupHtml_pieces rt opts g) = map escapeHtml (group_texts g)"
  by (simp add: groupHtml_pieces_def group_texts_def inserted_texts_append inserted_texts_join
      inserted_texts_event map_concat comp_def)

lemma inserted_texts_document:
  "inserted_texts (renderHTML_pieces rt ttl evs opts) =
     map escapeHtml (document_texts ttl (groupByMonth rt evs))"
  by (simp add: renderHTML_pieces_def document_texts_def inserted_texts_append
      inserted_texts_join inserted_texts_group map_concat comp_def)

lemma flatten_append: "flatten (a @ b) = flatten a @ flatten b"
  by (simp add: flatten_def)

lemma flatten_Cons: "flatten (p # ps) = piece_text p @ flatten ps"
  by (simp add: flatten_def)

lemma flatten_Nil: "flatten [] = []"
  by (simp add: flatten_def)

section \<open>Further lemmas on the stages\<close>

lemma three_rules_cmp: "three_rules rt a b = (sortEvents_cmp rt a b \<le> 0)"
  by (cases "start a"; cases "start b") (simp_all add: three_rules_def sortEvents_cmp_def)

lemma sortEvents_three_rules:
  assumes "consistent_comparator (localeCompare rt)"
  shows "sorted_wrt (three_rules rt) (sortEvents rt evs)"
proof -
  have "sorted_wrt (\<lambda>a b. sortEvents_cmp rt a b \<le> 0) (array_sort (sortEvents_cmp rt) evs)"
    by (rule array_sort_sorted [OF sortEvents_cmp_consistent [OF assms]])
  moreover have "three_rules rt = (\<lambda>a b. sortEvents_cmp rt a b \<le> 0)"
    by (intro ext) (rule three_rules_cmp)
  ultimately show ?thesis by (simp add: sortEvents_def)
qed

lemma sample_rt_localeCompare: "localeCompare sample_rt = sample_localeCompare"
  by (simp add: sample_rt_def)

lemma consistent_zero_flip: "consistent_comparator cmp \<Longrightarrow> cmp a b = 0 \<Longrightarrow> cmp b a = 0"
proof -
  assume "consistent_comparator cmp" and z: "cmp a b = 0"
  then have "(cmp a b < 0) = (0 < cmp b a)" "(cmp b a < 0) = (0 < cmp a b)"
    unfolding consistent_comparator_def by blast+
  with z show ?thesis by linarith
qed

lemma insert_cmp_filter_other:
  "\<not> P x \<Longrightarrow> filter P (insert_cmp cmp x ys) = filter P ys"
  by (induction ys) simp_all

lemma insert_cmp_filter_equal:
  assumes c: "consistent_comparator cmp" and e: "cmp z x = 0"
  shows "filter (\<lambda>y. cmp z y = 0) (insert_cmp cmp x ys) = x # filter (\<lambda>y. cmp z y = 0) ys"
proof (induction ys)
  case Nil
  show ?case using e by simp
next
  case (Cons y ys)
  show ?case
  proof (cases "cmp x y \<le> 0")
    case True
    then show ?thesis using e by simp
  next
    case False
    have "cmp z y \<noteq> 0"
    proof
      assume "cmp z y = 0"
      moreover have "cmp x z \<le> 0" using consistent_zero_flip [OF c e] by simp
      ultimately have "cmp x y \<le> 0" using consistent_trans [OF c, of x z y] by simp
      with False show False by simp
    qed
    then show ?thesis using False Cons by simp
  qed
qed

lemma array_sort_stable:
  assumes "consistent_comparator cmp"
  shows "filter (\<lambda>y. cmp z y = 0) (array_sort cmp xs) = filter (\<lambda>y. cmp z y = 0) xs"
proof (induction xs)
  case Nil
  show ?case by (simp add: array_sort_Nil)
next
  case (Cons x xs)
  show ?case
  proof (cases "cmp z x = 0")
    case True
    then show ?thesis
      using Cons by (simp add: array_sort_Cons insert_cmp_filter_equal [OF assms])
  next
    case False
    then show ?thesis
      using Cons by (simp add: array_sort_Cons insert_cmp_filter_other)
  qed
qed

lemma set_array_sort: "set (array_sort cmp xs) = set xs"
  by (metis mset_array_sort set_mset_mset)

lemma sortEvents_start_le: "sorted_wrt start_le (sortEvents rt evs)"
  unfolding sortEvents_def
proof (rule array_sort_sorted_wrt)
  show "start_le a c" if "start_le a b" "start_le b c" for a b c
    using that by (cases "start a"; cases "start b"; cases "start c") (simp_all add: start_le_def)
  show "start_le a b" if "sortEvents_cmp rt a b \<le> 0" for a b
    using that by (cases "start a"; cases "start b") (simp_all add: start_le_def sortEvents_cmp_def)
  show "start_le b a" if "0 < sortEvents_cmp rt a b" for a b
    using that by (cases "start a"; cases "start b") (simp_all add: start_le_def sortEvents_cmp_def)
qed

lemma insert_cmp_starts:
  "\<forall>y\<in>set ys. start_le x y \<Longrightarrow>
   map start (insert_cmp (groupByMonth_cmp rt) x ys) = start x # map start ys"
proof (induction ys)
  case Nil
  show ?case by simp
next
  case (Cons y ys)
  show ?case
  proof (cases "groupByMonth_cmp rt x y \<le> 0")
    case True
    then show ?thesis by simp
  next
    case False
    moreover have "start_le x y" using Cons.prems by simp
    ultimately have "start y = start x"
      by (cases "start x"; cases "start y")
         (auto simp: start_le_def groupByMonth_cmp_def time_difference_def Let_def
            split: if_splits)
    then show ?thesis using False Cons by simp
  qed
qed

lemma groupByMonth_sorted_starts:
  "sorted_wrt start_le xs \<Longrightarrow> map start (groupByMonth_sorted rt xs) = map start xs"
proof (induction xs)
  case Nil
  show ?case by (simp add: groupByMonth_sorted_def array_sort_Nil)
next
  case (Cons x xs)
  then have "\<forall>y\<in>set (array_sort (groupByMonth_cmp rt) xs). start_le x y"
    by (simp add: set_array_sort)
  then show ?case
    using Cons by (simp add: groupByMonth_sorted_def array_sort_Cons insert_cmp_starts)
qed

lemma groupByMonth_concat: "concat (map events (groupByMonth rt evs)) = groupByMonth_sorted rt evs"
  by (simp add: groupByMonth_def pass_concat)






lemma sample_rt_month_year:
  "\<forall>t. formatInTimeZone sample_rt t (currentTimeZone sample_rt) ''MMMM yyyy'' \<noteq> ''Unknown''"
  by (simp add: sample_rt_def sample_month_year_not_Unknown)

lemma formatTime_Some: "formatTime rt (Some d) = toLocaleTimeString rt d"
  by (simp add: formatTime_def)

lemma formatTime_None: "formatTime rt None = []"
  by (simp add: formatTime_def)

lemma class_tokens_toggle:
  "class_tokens (''summary '' @ hiddenUnless b) = ''summary'' # (if truthy_flag b then [] else [''hidden''])"
  "class_tokens (''meta '' @ hiddenUnless b) = ''meta'' # (if truthy_flag b then [] else [''hidden''])"
  "class_tokens (''desc '' @ hiddenUnless b) = ''desc'' # (if truthy_flag b then [] else [''hidden''])"
  by (simp_all add: class_tokens_def hiddenUnless_def)

lemma action_matcher_cases:
  "action_matcher rt opts =
     (case filter' opts of
        None \<Rightarrow> Inr None
      | Some p \<Rightarrow>
          if p = [] then Inr None
          else (case RegExp_new rt p (if truthy_flag (caseSensitive opts) then None else Some ''i'') of
                  Inl msg \<Rightarrow> Inl (SyntaxError msg)
                | Inr r \<Rightarrow> Inr (Some r)))"
  by (simp add: action_matcher_def makeMatcher_def truthy_str_def split: option.splits)

lemma applyFilter_Some:
  "applyFilter rt evs (Some r) inverted
     = filter (\<lambda>e. RegExp_test rt r (hay e) \<noteq> truthy_flag inverted) evs"
  by (auto simp: applyFilter_def Let_def intro: filter_cong)


text \<open>
  The sort of the model is the only list that the language allows as the result for a
  consistent comparator: a list with the elements of the array, in which no element
  compares greater than a later one, and in which elements that compare equal stand in the
  order of the array.
\<close>


lemma consistent_refl: "consistent_comparator cmp \<Longrightarrow> cmp a a = 0"
proof -
  assume "consistent_comparator cmp"
  then have "(cmp a a < 0) = (0 < cmp a a)" unfolding consistent_comparator_def by blast
  then show ?thesis by linarith
qed

lemma consistent_both_le:
  "consistent_comparator cmp \<Longrightarrow> cmp a b \<le> 0 \<Longrightarrow> cmp b a \<le> 0 \<Longrightarrow> cmp a b = 0"
proof -
  assume "consistent_comparator cmp" and le: "cmp a b \<le> 0" "cmp b a \<le> 0"
  then have "(cmp a b < 0) = (0 < cmp b a)" unfolding consistent_comparator_def by blast
  with le show ?thesis by linarith
qed

lemma stable_sorted_unique:
  assumes c: "consistent_comparator cmp"
  shows "mset ys = mset zs \<Longrightarrow>
         sorted_wrt (\<lambda>a b. cmp a b \<le> 0) ys \<Longrightarrow> sorted_wrt (\<lambda>a b. cmp a b \<le> 0) zs \<Longrightarrow>
         (\<forall>w. filter (\<lambda>y. cmp w y = 0) ys = filter (\<lambda>y. cmp w y = 0) zs) \<Longrightarrow> ys = zs"
proof (induction ys arbitrary: zs)
  case Nil
  then show ?case by simp
next
  case (Cons y ys)
  from Cons.prems(1) obtain z zs' where zs: "zs = z # zs'"
    by (cases zs) auto
  have "y \<in> set zs" using Cons.prems(1) by (metis list.set_intros(1) set_mset_mset)
  then have zy: "cmp z y \<le> 0"
    using Cons.prems(3) zs consistent_refl [OF c, of z] by auto
  have "z \<in> set (y # ys)" using Cons.prems(1) zs by (metis list.set_intros(1) set_mset_mset)
  then have yz: "cmp y z \<le> 0"
    using Cons.prems(2) consistent_refl [OF c, of y] by auto
  have e: "cmp y z = 0" by (rule consistent_both_le [OF c yz zy])
  have "filter (\<lambda>v. cmp y v = 0) (y # ys) = filter (\<lambda>v. cmp y v = 0) (z # zs')"
    using Cons.prems(4) zs by blast
  then have yeq: "y = z"
    using e consistent_refl [OF c, of y] by simp
  have f: "filter (\<lambda>v. cmp w v = 0) ys = filter (\<lambda>v. cmp w v = 0) zs'" for w
  proof -
    have "filter (\<lambda>v. cmp w v = 0) (y # ys) = filter (\<lambda>v. cmp w v = 0) (y # zs')"
      using Cons.prems(4) zs yeq by blast
    then show ?thesis by (cases "cmp w y = 0") simp_all
  qed
  have "ys = zs'"
  proof (rule Cons.IH)
    show "mset ys = mset zs'" using Cons.prems(1) zs yeq by simp
    show "sorted_wrt (\<lambda>a b. cmp a b \<le> 0) ys" using Cons.prems(2) by simp
    show "sorted_wrt (\<lambda>a b. cmp a b \<le> 0) zs'" using Cons.prems(3) zs by simp
    show "\<forall>w. filter (\<lambda>y. cmp w y = 0) ys = filter (\<lambda>y. cmp w y = 0) zs'" using f by blast
  qed
  then show ?case using zs yeq by simp
qed

lemma array_sort_unique:
  assumes c: "consistent_comparator cmp"
    and p: "mset ys = mset xs"
    and s: "sorted_wrt (\<lambda>a b. cmp a b \<le> 0) ys"
    and t: "\<forall>w. filter (\<lambda>y. cmp w y = 0) ys = filter (\<lambda>y. cmp w y = 0) xs"
  shows "ys = array_sort cmp xs"
proof (rule stable_sorted_unique [OF c])
  show "mset ys = mset (array_sort cmp xs)" using p by (simp add: mset_array_sort)
  show "sorted_wrt (\<lambda>a b. cmp a b \<le> 0) ys" by (rule s)
  show "sorted_wrt (\<lambda>a b. cmp a b \<le> 0) (array_sort cmp xs)" by (rule array_sort_sorted [OF c])
  show "\<forall>w. filter (\<lambda>y. cmp w y = 0) ys = filter (\<lambda>y. cmp w y = 0) (array_sort cmp xs)"
    using t by (simp add: array_sort_stable [OF c])
qed

section \<open>The claims\<close>

text \<open>
  C1 (amended). When no pattern is given, or the pattern is the empty string, the filter
  stage returns the events as they are. When a pattern that is not empty is given and
  compiles (without flags when \<open>caseSensitive\<close> is on, with the flag i otherwise), an event
  is kept exactly when the regular expression matches the summary, the description and the
  location joined by newlines in this order, and with \<open>invert\<close> exactly when it does not
  match. Apart from the empty pattern the stage is the filter as the specification words
  it.
\<close>

theorem filter_stage:
  "(filter' opts = None \<or> filter' opts = Some [] \<longrightarrow> action_filtered rt opts evs = Inr evs) \<and>
   (filter' opts = Some p \<and> p \<noteq> [] \<and>
    RegExp_new rt p (if truthy_flag (caseSensitive opts) then None else Some ''i'') = Inr r \<longrightarrow>
      action_filtered rt opts evs
        = Inr (filter (\<lambda>e. RegExp_test rt r (hay e) \<noteq> truthy_flag (invert opts)) evs)) \<and>
   (filter' opts \<noteq> Some [] \<and>
    spec_filter rt (filter' opts) (truthy_flag (caseSensitive opts)) (truthy_flag (invert opts)) evs
      = Some kept \<longrightarrow>
      action_filtered rt opts evs = Inr kept) \<and>
   hay e = summary e @ ''\<newline>'' @ description e @ ''\<newline>'' @ location e \<and>
   applyFilter rt evs None inverted = evs \<and>
   applyFilter rt evs (Some r) inverted
     = filter (\<lambda>e. RegExp_test rt r (hay e) \<noteq> truthy_flag inverted) evs"
proof -
  have 1: "action_filtered rt opts evs = Inr evs"
    if "filter' opts = None \<or> filter' opts = Some []"
    using that by (auto simp: action_filtered_def action_matcher_cases applyFilter_def)
  have 2: "action_filtered rt opts evs
        = Inr (filter (\<lambda>e. RegExp_test rt r (hay e) \<noteq> truthy_flag (invert opts)) evs)"
    if "filter' opts = Some p" "p \<noteq> []"
      "RegExp_new rt p (if truthy_flag (caseSensitive opts) then None else Some ''i'') = Inr r"
    using that by (simp add: action_filtered_def action_matcher_cases applyFilter_Some)
  have 3: "action_filtered rt opts evs = Inr kept"
    if ne: "filter' opts \<noteq> Some []"
      and sp: "spec_filter rt (filter' opts) (truthy_flag (caseSensitive opts))
                 (truthy_flag (invert opts)) evs = Some kept"
  proof (cases "filter' opts")
    case None
    then show ?thesis using sp 1 by (simp add: spec_filter_def)
  next
    case (Some q)
    then have q: "q \<noteq> []" using ne by simp
    show ?thesis
    proof (cases "RegExp_new rt q (if truthy_flag (caseSensitive opts) then None else Some ''i'')")
      case (Inl msg)
      then show ?thesis using sp Some by (simp add: spec_filter_def)
    next
      case (Inr x)
      then show ?thesis
        using sp Some q
        by (simp add: spec_filter_def action_filtered_def action_matcher_cases applyFilter_Some)
    qed
  qed
  have 4: "hay e = summary e @ ''\<newline>'' @ description e @ ''\<newline>'' @ location e"
    by (simp add: hay_def)
  have 5: "applyFilter rt evs None inverted = evs"
    by (simp add: applyFilter_def)
  from 1 2 3 4 5 applyFilter_Some [of rt evs r inverted] show ?thesis by blast
qed

theorem filter_stage_counterexample:
  "action_filtered sample_rt (sample_opts\<lparr>filter' := Some [], invert := Some True\<rparr>) [ev_game]
     = Inr [ev_game] \<and>
   spec_filter sample_rt (Some []) False True [ev_game] = Some [] \<and>
   RegExp_new sample_rt [] (Some ''i'') = Inr (Literal [] True) \<and>
   RegExp_test sample_rt (Literal [] True) (hay ev_game)"
  by code_simp

theorem filter_stage_witness:
  "filter' sample_opts = Some ''game'' \<and>
   RegExp_new sample_rt ''game'' (if truthy_flag (caseSensitive sample_opts) then None else Some ''i'')
     = Inr (Literal ''game'' True) \<and>
   action_filtered sample_rt sample_opts [ev_practice, ev_game, ev_picnic] = Inr [ev_game] \<and>
   spec_filter sample_rt (Some ''game'') False True [ev_practice, ev_game, ev_picnic]
     = Some [ev_practice, ev_picnic] \<and>
   action_filtered sample_rt (sample_opts\<lparr>invert := Some True\<rparr>) [ev_practice, ev_game, ev_picnic]
     = Inr [ev_practice, ev_picnic] \<and>
   action_filtered sample_rt (sample_opts\<lparr>filter' := None\<rparr>) [ev_practice, ev_game, ev_picnic]
     = Inr [ev_practice, ev_game, ev_picnic] \<and>
   action_filtered sample_rt (sample_opts\<lparr>filter' := Some []\<rparr>) [ev_practice, ev_game, ev_picnic]
     = Inr [ev_practice, ev_game, ev_picnic]"
proof -
  let ?evs = "[ev_practice, ev_game, ev_picnic]"
  let ?inv = "sample_opts\<lparr>invert := Some True\<rparr>"
  let ?none = "sample_opts\<lparr>filter' := None\<rparr>"
  let ?empty = "sample_opts\<lparr>filter' := Some []\<rparr>"
  have a: "filter' sample_opts = Some ''game'' \<and> ''game'' \<noteq> [] \<and>
     RegExp_new sample_rt ''game'' (if truthy_flag (caseSensitive sample_opts) then None else Some ''i'')
       = Inr (Literal ''game'' True)"
    by code_simp
  have b: "filter (\<lambda>e. RegExp_test sample_rt (Literal ''game'' True) (hay e)
              \<noteq> truthy_flag (invert sample_opts)) ?evs = [ev_game]"
    by code_simp
  have "action_filtered sample_rt sample_opts ?evs
     = Inr (filter (\<lambda>e. RegExp_test sample_rt (Literal ''game'' True) (hay e)
              \<noteq> truthy_flag (invert sample_opts)) ?evs)"
    using a filter_stage [of sample_opts sample_rt ?evs "''game''" "Literal ''game'' True" "[]" ev_game None]
    by blast
  then have c: "action_filtered sample_rt sample_opts ?evs = Inr [ev_game]"
    unfolding b .
  have d: "filter' ?inv \<noteq> Some [] \<and> filter' ?inv = Some ''game'' \<and>
     truthy_flag (caseSensitive ?inv) = False \<and> truthy_flag (invert ?inv) = True \<and>
     spec_filter sample_rt (Some ''game'') False True ?evs = Some [ev_practice, ev_picnic]"
    by code_simp
  have e: "action_filtered sample_rt ?inv ?evs = Inr [ev_practice, ev_picnic]"
    using d filter_stage [of ?inv sample_rt ?evs "''game''" "Literal ''game'' True"
        "[ev_practice, ev_picnic]" ev_game None]
    by simp
  have f: "filter' ?none = None" "filter' ?empty = Some []"
    by simp_all
  have g: "action_filtered sample_rt ?none ?evs = Inr ?evs"
    using f(1) filter_stage [of ?none sample_rt ?evs "[]" "Literal [] True" "[]" ev_game None]
    by blast
  have h: "action_filtered sample_rt ?empty ?evs = Inr ?evs"
    using f(2) filter_stage [of ?empty sample_rt ?evs "[]" "Literal [] True" "[]" ev_game None]
    by blast
  from a c d e g h show ?thesis by blast
qed

text \<open>
  C2. \<open>sortEvents\<close> orders every event list by the three rules: an event without a start
  comes after every event with one, two events without a start are in the order of
  \<open>localeCompare\<close> on their summaries, two events with a start are in ascending order of
  the time value. The result holds the events of the input; every pair of it, so every
  adjacent pair, obeys the rules; once an event has no start, no later event has one. The
  hypothesis is what the language asks of \<open>localeCompare\<close> as a comparator.
\<close>

theorem sortEvents_ordered:
  assumes "consistent_comparator (localeCompare rt)"
  shows "mset (sortEvents rt evs) = mset evs \<and>
         sorted_wrt (three_rules rt) (sortEvents rt evs) \<and>
         (\<forall>i. Suc i < length (sortEvents rt evs) \<longrightarrow>
              three_rules rt (sortEvents rt evs ! i) (sortEvents rt evs ! Suc i)) \<and>
         (\<forall>i j. i < j \<and> j < length (sortEvents rt evs) \<and> start (sortEvents rt evs ! i) = None \<longrightarrow>
              start (sortEvents rt evs ! j) = None)"
proof -
  have m: "mset (sortEvents rt evs) = mset evs"
    by (simp add: sortEvents_def mset_array_sort)
  have s: "sorted_wrt (three_rules rt) (sortEvents rt evs)"
    by (rule sortEvents_three_rules [OF assms])
  have adj: "three_rules rt (sortEvents rt evs ! i) (sortEvents rt evs ! Suc i)"
    if "Suc i < length (sortEvents rt evs)" for i
    using s that by (simp add: sorted_wrt_iff_nth_less)
  have late: "start (sortEvents rt evs ! j) = None"
    if "i < j" "j < length (sortEvents rt evs)" "start (sortEvents rt evs ! i) = None" for i j
    using sortEvents_absent_last [of rt evs] that by (simp add: sorted_wrt_iff_nth_less)
  from m s adj late show ?thesis by blast
qed

theorem sortEvents_ordered_witness:
  "consistent_comparator (localeCompare sample_rt) \<and>
   sortEvents sample_rt [ev_picnic, ev_practice, ev_until, ev_beta, ev_alpha]
     = [ev_beta, ev_alpha, ev_practice, ev_until, ev_picnic] \<and>
   sorted_wrt (three_rules sample_rt)
     (sortEvents sample_rt [ev_picnic, ev_practice, ev_until, ev_beta, ev_alpha]) \<and>
   three_rules sample_rt ev_until ev_picnic \<and> \<not> three_rules sample_rt ev_picnic ev_until"
proof -
  have c: "consistent_comparator (localeCompare sample_rt)"
    by (simp add: sample_rt_localeCompare sample_localeCompare_consistent)
  have e: "sortEvents sample_rt [ev_picnic, ev_practice, ev_until, ev_beta, ev_alpha]
     = [ev_beta, ev_alpha, ev_practice, ev_until, ev_picnic]"
    by code_simp
  have r: "three_rules sample_rt ev_until ev_picnic \<and> \<not> three_rules sample_rt ev_picnic ev_until"
    by code_simp
  from c e r sortEvents_ordered [OF c, of "[ev_picnic, ev_practice, ev_until, ev_beta, ev_alpha]"]
  show ?thesis by blast
qed

text \<open>
  C3 (amended). The grouper sorts what it is given once more, with a comparator of its
  own that lets the summaries decide between equal starts. So the events of its groups, in
  sequence, are the sorter's output as that stable sort leaves it: the same events with the
  same sequence of starts, in the order of the grouper's comparator, and equal to the
  sorter's output when that is already in this order. Events that the grouper's comparator
  holds equal (the same start, summaries that compare equal) keep the order they had in the
  sorter's output; two events with the same start and different summaries stand in the order
  of their summaries.
\<close>

theorem groups_concat_resorted:
  "concat (map events (groupByMonth rt (sortEvents rt evs))) = groupByMonth_sorted rt (sortEvents rt evs) \<and>
   mset (concat (map events (groupByMonth rt (sortEvents rt evs)))) = mset (sortEvents rt evs) \<and>
   map start (concat (map events (groupByMonth rt (sortEvents rt evs)))) = map start (sortEvents rt evs) \<and>
   (sorted_wrt (\<lambda>a b. groupByMonth_cmp rt a b \<le> 0) (sortEvents rt evs) \<longrightarrow>
      concat (map events (groupByMonth rt (sortEvents rt evs))) = sortEvents rt evs) \<and>
   (consistent_comparator (localeCompare rt) \<longrightarrow>
      sorted_wrt (\<lambda>a b. groupByMonth_cmp rt a b \<le> 0)
        (concat (map events (groupByMonth rt (sortEvents rt evs)))) \<and>
      (\<forall>z. filter (\<lambda>y. groupByMonth_cmp rt z y = 0)
             (concat (map events (groupByMonth rt (sortEvents rt evs))))
           = filter (\<lambda>y. groupByMonth_cmp rt z y = 0) (sortEvents rt evs)))"
proof -
  let ?s = "sortEvents rt evs"
  have c: "concat (map events (groupByMonth rt ?s)) = groupByMonth_sorted rt ?s"
    by (rule groupByMonth_concat)
  have m: "mset (groupByMonth_sorted rt ?s) = mset ?s"
    by (simp add: groupByMonth_sorted_def mset_array_sort)
  have st: "map start (groupByMonth_sorted rt ?s) = map start ?s"
    by (rule groupByMonth_sorted_starts [OF sortEvents_start_le])
  have i: "groupByMonth_sorted rt ?s = ?s"
    if "sorted_wrt (\<lambda>a b. groupByMonth_cmp rt a b \<le> 0) ?s"
    using that by (simp add: groupByMonth_sorted_def array_sort_sorted_id)
  have o: "sorted_wrt (\<lambda>a b. groupByMonth_cmp rt a b \<le> 0) (groupByMonth_sorted rt ?s)"
    if "consistent_comparator (localeCompare rt)"
    unfolding groupByMonth_sorted_def
    by (rule array_sort_sorted [OF groupByMonth_cmp_consistent [OF that]])
  have k: "filter (\<lambda>y. groupByMonth_cmp rt z y = 0) (groupByMonth_sorted rt ?s)
             = filter (\<lambda>y. groupByMonth_cmp rt z y = 0) ?s"
    if "consistent_comparator (localeCompare rt)" for z
    unfolding groupByMonth_sorted_def
    by (rule array_sort_stable [OF groupByMonth_cmp_consistent [OF that]])
  from c m st i o k show ?thesis by simp
qed

theorem groups_concat_counterexample:
  "concat (map events (groupByMonth sample_rt (sortEvents sample_rt [ev_beta, ev_alpha])))
     \<noteq> sortEvents sample_rt [ev_beta, ev_alpha] \<and>
   sortEvents sample_rt [ev_beta, ev_alpha] = [ev_beta, ev_alpha] \<and>
   concat (map events (groupByMonth sample_rt (sortEvents sample_rt [ev_beta, ev_alpha])))
     = [ev_alpha, ev_beta] \<and>
   start ev_beta = start ev_alpha \<and> start ev_beta = Some 1741600800000"
  by code_simp

theorem groups_concat_resorted_witness:
  "sorted_wrt (\<lambda>a b. groupByMonth_cmp sample_rt a b \<le> 0)
     (sortEvents sample_rt [ev_picnic, ev_practice, ev_game]) \<and>
   concat (map events (groupByMonth sample_rt (sortEvents sample_rt [ev_picnic, ev_practice, ev_game])))
     = sortEvents sample_rt [ev_picnic, ev_practice, ev_game] \<and>
   sortEvents sample_rt [ev_picnic, ev_practice, ev_game] = [ev_game, ev_practice, ev_picnic] \<and>
   consistent_comparator (localeCompare sample_rt) \<and>
   sorted_wrt (\<lambda>a b. groupByMonth_cmp sample_rt a b \<le> 0)
     (concat (map events (groupByMonth sample_rt (sortEvents sample_rt [ev_picnic, ev_practice, ev_game]))))"
proof -
  have s: "sorted_wrt (\<lambda>a b. groupByMonth_cmp sample_rt a b \<le> 0)
     (sortEvents sample_rt [ev_picnic, ev_practice, ev_game])"
    by code_simp
  have e: "sortEvents sample_rt [ev_picnic, ev_practice, ev_game] = [ev_game, ev_practice, ev_picnic]"
    by code_simp
  have c: "consistent_comparator (localeCompare sample_rt)"
    by (simp add: sample_rt_localeCompare sample_localeCompare_consistent)
  from s e c groups_concat_resorted [of sample_rt "[ev_picnic, ev_practice, ev_game]"]
  show ?thesis by blast
qed




text \<open>
  C5. Every text that the document takes from the title, from the summary, the description
  and the location of an event, and from a group key goes through \<open>escapeHtml\<close>, which
  replaces each of the five characters \<open>&\<close>, \<open><\<close>, \<open>>\<close>, double quote and single quote by
  its entity (the ampersand first, so that the result is the replacement character by
  character). For every string the escaped text holds none of the five characters raw: no
  \<open><\<close>, \<open>>\<close> or quote, and no \<open>&\<close> that does not start one of the five entities.
\<close>

theorem escapeHtml_inserted_texts:
  "escapeHtml s = concat (map entity s) \<and>
   no_raw_special (escapeHtml s) \<and>
   renderHTML rt ttl evs opts = flatten (renderHTML_pieces rt ttl evs opts) \<and>
   inserted_texts (renderHTML_pieces rt ttl evs opts)
     = map escapeHtml (document_texts ttl (groupByMonth rt evs)) \<and>
   list_all no_raw_special (inserted_texts (renderHTML_pieces rt ttl evs opts))"
proof -
  have "list_all no_raw_special (map escapeHtml xs)" for xs
    by (simp add: list_all_iff escapeHtml_no_raw)
  then have "list_all no_raw_special (inserted_texts (renderHTML_pieces rt ttl evs opts))"
    by (simp only: inserted_texts_document)
  then show ?thesis
    by (simp add: escapeHtml_entities [symmetric] escapeHtml_no_raw renderHTML_def
        inserted_texts_document)
qed

theorem escapeHtml_inserted_texts_witness:
  \<open>escapeHtml script_text = ''&lt;script&gt;&amp;&quot;&#39;'' \<and>
   no_raw_special (escapeHtml script_text) \<and>
   \<not> no_raw_special script_text \<and>
   inserted_texts (renderHTML_pieces sample_rt ''T&C'' [ev_practice] sample_opts)
     = [''T&amp;C'', ''T&amp;C'', ''March 2025'', ''Practice'', ''Gym'',
        ''Bring &lt;water&gt; &amp; &quot;snacks&quot;''] \<and>
   list_all no_raw_special (inserted_texts (renderHTML_pieces sample_rt ''T&C'' [ev_practice] sample_opts))\<close>
proof -
  have a: \<open>escapeHtml script_text = ''&lt;script&gt;&amp;&quot;&#39;''\<close>
    by code_simp
  have b: \<open>\<not> no_raw_special script_text\<close>
    by code_simp
  have c: \<open>inserted_texts (renderHTML_pieces sample_rt ''T&C'' [ev_practice] sample_opts)
     = [''T&amp;C'', ''T&amp;C'', ''March 2025'', ''Practice'', ''Gym'',
        ''Bring &lt;water&gt; &amp; &quot;snacks&quot;'']\<close>
    by code_simp
  from a b c escapeHtml_inserted_texts [of script_text sample_rt "''T&C''" "[ev_practice]" sample_opts]
  show ?thesis by blast
qed

text \<open>
  C6 (amended). The time range of an entry is the formatted start, the separator of an en
  dash between two spaces, and the formatted end when both are present; the formatted start
  alone when only the start is present; the separator followed by the formatted end when
  only the end is present; and nothing when neither is present, in which case the entry
  has no time part at all. A time range that is not empty follows a bullet in the entry.
  The formatted end is taken to be a string that is not empty.
\<close>

theorem timeRange_cases:
  "(start ev = Some s \<and> end' ev = Some e \<and> toLocaleTimeString rt e \<noteq> [] \<longrightarrow>
      timeRange rt ev = toLocaleTimeString rt s @ '' '' @ en_dash @ '' '' @ toLocaleTimeString rt e) \<and>
   (start ev = Some s \<and> end' ev = None \<longrightarrow> timeRange rt ev = toLocaleTimeString rt s) \<and>
   (start ev = None \<and> end' ev = Some e \<and> toLocaleTimeString rt e \<noteq> [] \<longrightarrow>
      timeRange rt ev = '' '' @ en_dash @ '' '' @ toLocaleTimeString rt e) \<and>
   (start ev = None \<and> end' ev = None \<longrightarrow> timeRange rt ev = [] \<and> metaTime_pieces rt ev = []) \<and>
   (timeRange rt ev \<noteq> [] \<longrightarrow>
      flatten (metaTime_pieces rt ev) = '' '' @ bullet @ '' '' @ timeRange rt ev)"
  by (simp add: timeRange_def metaTime_pieces_def formatTime_Some formatTime_None flatten_Cons
      flatten_Nil Let_def)

theorem timeRange_counterexample:
  "start ev_until = None \<and> end' ev_until = Some 1741604400000 \<and>
   formatTime sample_rt (end' ev_until) = ''11:00 AM'' \<and>
   timeRange sample_rt ev_until = '' '' @ en_dash @ '' 11:00 AM'' \<and>
   timeRange sample_rt ev_until \<noteq> formatTime sample_rt (end' ev_until)"
  by code_simp

theorem timeRange_cases_witness:
  "start ev_game = Some 1741600800000 \<and> end' ev_game = Some 1741606200000 \<and>
   toLocaleTimeString sample_rt 1741606200000 \<noteq> [] \<and>
   timeRange sample_rt ev_game = ''10:00 AM '' @ en_dash @ '' 11:30 AM'' \<and>
   flatten (metaTime_pieces sample_rt ev_game) = '' '' @ bullet @ '' 10:00 AM '' @ en_dash @ '' 11:30 AM'' \<and>
   timeRange sample_rt ev_practice = ''10:00 AM'' \<and>
   timeRange sample_rt ev_until = '' '' @ en_dash @ '' 11:00 AM'' \<and>
   timeRange sample_rt ev_picnic = [] \<and> metaTime_pieces sample_rt ev_picnic = []"
proof -
  have g: "start ev_game = Some 1741600800000 \<and> end' ev_game = Some 1741606200000 \<and>
     toLocaleTimeString sample_rt 1741606200000 = ''11:30 AM'' \<and>
     toLocaleTimeString sample_rt 1741600800000 = ''10:00 AM''"
    by code_simp
  have p: "start ev_practice = Some 1742205600000 \<and> end' ev_practice = None \<and>
     toLocaleTimeString sample_rt 1742205600000 = ''10:00 AM''"
    by code_simp
  have u: "start ev_until = None \<and> end' ev_until = Some 1741604400000 \<and>
     toLocaleTimeString sample_rt 1741604400000 = ''11:00 AM''"
    by code_simp
  have n: "start ev_picnic = None \<and> end' ev_picnic = None"
    by code_simp
  from g timeRange_cases [of ev_game 1741600800000 1741606200000 sample_rt]
  have 1: "timeRange sample_rt ev_game = ''10:00 AM '' @ en_dash @ '' 11:30 AM''" by simp
  then have "timeRange sample_rt ev_game \<noteq> []" by simp
  with timeRange_cases [of ev_game 1741600800000 1741606200000 sample_rt]
  have "flatten (metaTime_pieces sample_rt ev_game) = '' '' @ bullet @ '' '' @ timeRange sample_rt ev_game"
    by blast
  with 1 have 5: "flatten (metaTime_pieces sample_rt ev_game)
      = '' '' @ bullet @ '' 10:00 AM '' @ en_dash @ '' 11:30 AM''"
    by simp
  from p timeRange_cases [of ev_practice 1742205600000 0 sample_rt]
  have 2: "timeRange sample_rt ev_practice = ''10:00 AM''" by simp
  from u timeRange_cases [of ev_until 0 1741604400000 sample_rt]
  have 3: "timeRange sample_rt ev_until = '' '' @ en_dash @ '' 11:00 AM''" by simp
  from n timeRange_cases [of ev_picnic 0 0 sample_rt]
  have 4: "timeRange sample_rt ev_picnic = [] \<and> metaTime_pieces sample_rt ev_picnic = []" by simp
  from g 1 2 3 4 5 show ?thesis by simp
qed

text \<open>
  C7. Every entry is the heading, the summary element, the meta element and the
  description element in this order. The heading is always there, with the start formatted
  in the display time zone, or a question mark when the start is absent. The summary
  element and the meta element are always there, and each carries the class \<open>hidden\<close>
  exactly when its option is off. The description element carries the class \<open>hidden\<close>
  exactly when \<open>includeDesc\<close> is off, and there is no such element at all when the
  description is empty.
\<close>

theorem eventHtml_entry:
  \<open>eventHtml rt opts ev =
     ''\<newline>\<newline>        <div class="event">\<newline>           ''
     @ element ''h3'' ''date'' (dateHeading rt ev)
     @ ''\<newline>          ''
     @ element ''div'' (''summary '' @ hiddenUnless (includeSummary opts)) (escapeHtml (summary ev))
     @ ''\<newline>          ''
     @ element ''div'' (''meta '' @ hiddenUnless (includeMeta opts))
         (escapeHtml (location ev) @ '' '' @ flatten (metaTime_pieces rt ev))
     @ ''\<newline>          ''
     @ (if description ev = [] then []
        else element ''div'' (''desc '' @ hiddenUnless (includeDesc opts)) (escapeHtml (description ev)))
     @ ''\<newline>        </div>\<newline>      '' \<and>
   dateHeading rt ev =
     (case start ev of
        Some t \<Rightarrow> formatInTimeZone rt t (currentTimeZone rt) ''EEEE, MMMM d, yyyy hh:mm a''
      | None \<Rightarrow> ''?'') \<and>
   (''hidden'' \<in> set (class_tokens (''summary '' @ hiddenUnless (includeSummary opts))))
     = (\<not> truthy_flag (includeSummary opts)) \<and>
   (''hidden'' \<in> set (class_tokens (''meta '' @ hiddenUnless (includeMeta opts))))
     = (\<not> truthy_flag (includeMeta opts)) \<and>
   (''hidden'' \<in> set (class_tokens (''desc '' @ hiddenUnless (includeDesc opts))))
     = (\<not> truthy_flag (includeDesc opts))\<close>
proof -
  have \<open>eventHtml rt opts ev =
     ''\<newline>\<newline>        <div class="event">\<newline>           ''
     @ element ''h3'' ''date'' (dateHeading rt ev)
     @ ''\<newline>          ''
     @ element ''div'' (''summary '' @ hiddenUnless (includeSummary opts)) (escapeHtml (summary ev))
     @ ''\<newline>          ''
     @ element ''div'' (''meta '' @ hiddenUnless (includeMeta opts))
         (escapeHtml (location ev) @ '' '' @ flatten (metaTime_pieces rt ev))
     @ ''\<newline>          ''
     @ (if description ev = [] then []
        else element ''div'' (''desc '' @ hiddenUnless (includeDesc opts)) (escapeHtml (description ev)))
     @ ''\<newline>        </div>\<newline>      ''\<close>
    by (simp add: eventHtml_def eventHtml_pieces_def descHtml_pieces_def element_def
        flatten_append flatten_Cons flatten_Nil)
  moreover have "dateHeading rt ev =
     (case start ev of
        Some t \<Rightarrow> formatInTimeZone rt t (currentTimeZone rt) ''EEEE, MMMM d, yyyy hh:mm a''
      | None \<Rightarrow> ''?'')"
    by (simp add: dateHeading_def)
  moreover have "(''hidden'' \<in> set (class_tokens (''summary '' @ hiddenUnless (includeSummary opts))))
     = (\<not> truthy_flag (includeSummary opts))"
    unfolding class_tokens_toggle by simp
  moreover have "(''hidden'' \<in> set (class_tokens (''meta '' @ hiddenUnless (includeMeta opts))))
     = (\<not> truthy_flag (includeMeta opts))"
    unfolding class_tokens_toggle by simp
  moreover have "(''hidden'' \<in> set (class_tokens (''desc '' @ hiddenUnless (includeDesc opts))))
     = (\<not> truthy_flag (includeDesc opts))"
    unfolding class_tokens_toggle by simp
  ultimately show ?thesis by blast
qed

theorem eventHtml_entry_witness:
  \<open>eventHtml sample_rt sample_opts ev_picnic =
     ''\<newline>\<newline>        <div class="event">\<newline>           <h3 class="date">?</h3>\<newline>          <div class="summary hidden">Picnic</div>\<newline>          <div class="meta "> </div>\<newline>          \<newline>        </div>\<newline>      '' \<and>
   eventHtml sample_rt sample_opts ev_practice =
     ''\<newline>\<newline>        <div class="event">\<newline>           <h3 class="date">Monday, March 17, 2025 10:00 AM</h3>\<newline>          <div class="summary hidden">Practice</div>\<newline>          <div class="meta ">Gym  '' @ bullet @ '' 10:00 AM</div>\<newline>          <div class="desc hidden">Bring &lt;water&gt; &amp; &quot;snacks&quot;</div>\<newline>        </div>\<newline>      '' \<and>
   dateHeading sample_rt ev_picnic = ''?'' \<and>
   (''hidden'' \<in> set (class_tokens (''summary '' @ hiddenUnless (includeSummary sample_opts)))) \<and>
   (''hidden'' \<notin> set (class_tokens (''meta '' @ hiddenUnless (includeMeta sample_opts))))\<close>
proof -
  have a: \<open>eventHtml sample_rt sample_opts ev_picnic =
     ''\<newline>\<newline>        <div class="event">\<newline>           <h3 class="date">?</h3>\<newline>          <div class="summary hidden">Picnic</div>\<newline>          <div class="meta "> </div>\<newline>          \<newline>        </div>\<newline>      ''\<close>
    by code_simp
  have b: \<open>eventHtml sample_rt sample_opts ev_practice =
     ''\<newline>\<newline>        <div class="event">\<newline>           <h3 class="date">Monday, March 17, 2025 10:00 AM</h3>\<newline>          <div class="summary hidden">Practice</div>\<newline>          <div class="meta ">Gym  '' @ bullet @ '' 10:00 AM</div>\<newline>          <div class="desc hidden">Bring &lt;water&gt; &amp; &quot;snacks&quot;</div>\<newline>        </div>\<newline>      ''\<close>
    by code_simp
  have c: "start ev_picnic = None" "\<not> truthy_flag (includeSummary sample_opts)"
    "truthy_flag (includeMeta sample_opts)"
    by code_simp+
  from eventHtml_entry [of sample_rt sample_opts ev_picnic] c
  have "dateHeading sample_rt ev_picnic = ''?'' \<and>
   (''hidden'' \<in> set (class_tokens (''summary '' @ hiddenUnless (includeSummary sample_opts)))) \<and>
   (''hidden'' \<notin> set (class_tokens (''meta '' @ hiddenUnless (includeMeta sample_opts))))"
    by simp
  with a b show ?thesis by blast
qed




text \<open>
  C9. For every event list, matcher and invert flag, what \<open>applyFilter\<close> returns is a
  subsequence of the list it was given: every event it keeps is an event of the input,
  unchanged, and the events it keeps stand in the order they had in the input, with or
  without a pattern.
\<close>

theorem applyFilter_subseq:
  "subseq (applyFilter rt evs matcher inverted) evs \<and>
   set (applyFilter rt evs matcher inverted) \<subseteq> set evs"
  by (cases matcher) (simp_all add: applyFilter_def)

theorem applyFilter_subseq_witness:
  "subseq (applyFilter sample_rt [ev_practice, ev_game, ev_picnic] (Some (Literal ''game'' True)) (Some True))
     [ev_practice, ev_game, ev_picnic] \<and>
   applyFilter sample_rt [ev_practice, ev_game, ev_picnic] (Some (Literal ''game'' True)) (Some True)
     = [ev_practice, ev_picnic]"
proof
  show "subseq (applyFilter sample_rt [ev_practice, ev_game, ev_picnic] (Some (Literal ''game'' True)) (Some True))
     [ev_practice, ev_game, ev_picnic]"
    using applyFilter_subseq [of sample_rt "[ev_practice, ev_game, ev_picnic]"] by blast
  show "applyFilter sample_rt [ev_practice, ev_game, ev_picnic] (Some (Literal ''game'' True)) (Some True)
     = [ev_practice, ev_picnic]"
    by code_simp
qed

text \<open>
  C10. For every event list, the grouper's output has at most one group with the key
  \<open>Unknown\<close>, and such a group is the last one: the sort inside the grouper puts every
  event without a start after all events with one. The hypothesis is that the formatter
  never prints \<open>Unknown\<close> for a month and a year.
\<close>

theorem unknown_group_last:
  assumes "\<forall>t. formatInTimeZone rt t (currentTimeZone rt) ''MMMM yyyy'' \<noteq> ''Unknown''"
  shows "length (filter (\<lambda>g. groupKey g = ''Unknown'') (groupByMonth rt evs)) \<le> 1 \<and>
         (\<forall>i. i < length (groupByMonth rt evs) \<and> groupKey (groupByMonth rt evs ! i) = ''Unknown'' \<longrightarrow>
              Suc i = length (groupByMonth rt evs)) \<and>
         sorted_wrt (\<lambda>a b. start a = None \<longrightarrow> start b = None) (groupByMonth_sorted rt evs)"
proof -
  let ?u = "''Unknown''"
  let ?s = "groupByMonth_sorted rt evs"
  let ?ks = "map (eventGroupKey rt) ?s"
  have key: "(eventGroupKey rt e = ?u) = (start e = None)" for e
    using assms by (cases "start e") (simp_all add: eventGroupKey_def)
  have a: "sorted_wrt (\<lambda>a b. start a = None \<longrightarrow> start b = None) ?s"
    by (rule groupByMonth_sorted_absent_last)
  then have srt: "sorted_wrt (\<lambda>k k'. k = ?u \<longrightarrow> k' = ?u) ?ks"
    by (simp add: sorted_wrt_map key)
  have K: "map groupKey (groupByMonth rt evs) = remdups_adj ?ks"
    by (simp add: groupByMonth_def pass_keys)
  have "length (filter (\<lambda>g. groupKey g = ?u) (groupByMonth rt evs))
          = length (filter (\<lambda>k. k = ?u) (map groupKey (groupByMonth rt evs)))"
    by (simp add: filter_map comp_def)
  then have c: "length (filter (\<lambda>g. groupKey g = ?u) (groupByMonth rt evs)) \<le> 1"
    using trailing_key_count [OF srt] by (simp add: K)
  have l: "Suc i = length (groupByMonth rt evs)"
    if "i < length (groupByMonth rt evs)" "groupKey (groupByMonth rt evs ! i) = ?u" for i
  proof -
    have "i < length (remdups_adj ?ks)" using that(1) K by (metis length_map)
    moreover have "remdups_adj ?ks ! i = ?u"
      using that K by (metis nth_map)
    ultimately have "Suc i = length (remdups_adj ?ks)" by (rule trailing_key_last [OF srt])
    then show ?thesis using K by (metis length_map)
  qed
  from c l a show ?thesis by blast
qed

theorem unknown_group_last_witness:
  "groupByMonth sample_rt [ev_picnic, ev_practice, ev_until, ev_game]
     = [\<lparr>groupKey = ''March 2025'', events = [ev_game, ev_practice]\<rparr>,
        \<lparr>groupKey = ''Unknown'', events = [ev_until, ev_picnic]\<rparr>] \<and>
   length (filter (\<lambda>g. groupKey g = ''Unknown'')
     (groupByMonth sample_rt [ev_picnic, ev_practice, ev_until, ev_game])) \<le> 1 \<and>
   groupKey (groupByMonth sample_rt [ev_picnic, ev_practice, ev_until, ev_game] ! 1) = ''Unknown'' \<and>
   Suc 1 = length (groupByMonth sample_rt [ev_picnic, ev_practice, ev_until, ev_game]) \<and>
   sorted_wrt (\<lambda>a b. start a = None \<longrightarrow> start b = None)
     (groupByMonth_sorted sample_rt [ev_picnic, ev_practice, ev_until, ev_game])"
proof -
  let ?evs = "[ev_picnic, ev_practice, ev_until, ev_game]"
  have g: "groupByMonth sample_rt ?evs
     = [\<lparr>groupKey = ''March 2025'', events = [ev_game, ev_practice]\<rparr>,
        \<lparr>groupKey = ''Unknown'', events = [ev_until, ev_picnic]\<rparr>]"
    by code_simp
  then have k: "1 < length (groupByMonth sample_rt ?evs) \<and>
     groupKey (groupByMonth sample_rt ?evs ! 1) = ''Unknown''"
    by simp
  from g k unknown_group_last [OF sample_rt_month_year, of ?evs]
  show ?thesis by blast
qed

end
